theory Spec2Isabelle
  imports Main
begin

unbundle bit_operations_syntax

section \<open>Instruction encoder (firmware/gen_firmware.py)\<close>

text \<open>
  Python integers are unbounded, so every operand and every encoded word is an \<open>int\<close>.
  Python's \<open><<\<close>, \<open>>>\<close>, \<open>&\<close> and \<open>|\<close> on integers are the two's-complement
  operations \<open>push_bit\<close>, \<open>drop_bit\<close>, \<open>AND\<close> and \<open>OR\<close> of HOL on \<open>int\<close>.  The
  default opcode of each format encoder is passed explicitly.
\<close>

definition r_type :: "int \<Rightarrow> int \<Rightarrow> int \<Rightarrow> int \<Rightarrow> int \<Rightarrow> int \<Rightarrow> int" where
  "r_type funct7 rs2 rs1 funct3 rd opcode =
     push_bit 25 funct7 OR push_bit 20 rs2 OR push_bit 15 rs1 OR push_bit 12 funct3
       OR push_bit 7 rd OR opcode"

definition i_type :: "int \<Rightarrow> int \<Rightarrow> int \<Rightarrow> int \<Rightarrow> int \<Rightarrow> int" where
  "i_type imm rs1 funct3 rd opcode =
     push_bit 20 (imm AND 0xFFF) OR push_bit 15 rs1 OR push_bit 12 funct3
       OR push_bit 7 rd OR opcode"

definition s_type :: "int \<Rightarrow> int \<Rightarrow> int \<Rightarrow> int \<Rightarrow> int \<Rightarrow> int" where
  "s_type imm rs2 rs1 funct3 opcode =
     (let imm11_5 = drop_bit 5 imm AND 0x7F;
          imm4_0 = imm AND 0x1F
      in push_bit 25 imm11_5 OR push_bit 20 rs2 OR push_bit 15 rs1 OR push_bit 12 funct3
           OR push_bit 7 imm4_0 OR opcode)"

definition b_type :: "int \<Rightarrow> int \<Rightarrow> int \<Rightarrow> int \<Rightarrow> int \<Rightarrow> int" where
  "b_type imm rs2 rs1 funct3 opcode =
     (let imm12 = drop_bit 12 imm AND 1;
          imm10_5 = drop_bit 5 imm AND 0x3F;
          imm4_1 = drop_bit 1 imm AND 0xF;
          imm11 = drop_bit 11 imm AND 1
      in push_bit 31 imm12 OR push_bit 25 imm10_5 OR push_bit 20 rs2 OR push_bit 15 rs1
           OR push_bit 12 funct3 OR push_bit 8 imm4_1 OR push_bit 7 imm11 OR opcode)"

definition u_type :: "int \<Rightarrow> int \<Rightarrow> int \<Rightarrow> int" where
  "u_type imm rd opcode = (imm AND 0xFFFFF000) OR push_bit 7 rd OR opcode"

definition j_type :: "int \<Rightarrow> int \<Rightarrow> int \<Rightarrow> int" where
  "j_type imm rd opcode =
     (let imm20 = drop_bit 20 imm AND 1;
          imm10_1 = drop_bit 1 imm AND 0x3FF;
          imm11 = drop_bit 11 imm AND 1;
          imm19_12 = drop_bit 12 imm AND 0xFF
      in push_bit 31 imm20 OR push_bit 21 imm10_1 OR push_bit 20 imm11
           OR push_bit 12 imm19_12 OR push_bit 7 rd OR opcode)"

subsection \<open>Mnemonic wrappers\<close>

definition addi :: "int \<Rightarrow> int \<Rightarrow> int \<Rightarrow> int" where
  "addi rd rs1 imm = i_type imm rs1 0 rd 0x13"

definition add :: "int \<Rightarrow> int \<Rightarrow> int \<Rightarrow> int" where
  "add rd rs1 rs2 = r_type 0x00 rs2 rs1 0 rd 0x33"

definition sub :: "int \<Rightarrow> int \<Rightarrow> int \<Rightarrow> int" where
  "sub rd rs1 rs2 = r_type 0x20 rs2 rs1 0 rd 0x33"

definition andi :: "int \<Rightarrow> int \<Rightarrow> int \<Rightarrow> int" where
  "andi rd rs1 imm = i_type imm rs1 7 rd 0x13"

definition ori :: "int \<Rightarrow> int \<Rightarrow> int \<Rightarrow> int" where
  "ori rd rs1 imm = i_type imm rs1 6 rd 0x13"

definition xori :: "int \<Rightarrow> int \<Rightarrow> int \<Rightarrow> int" where
  "xori rd rs1 imm = i_type imm rs1 4 rd 0x13"

definition slli :: "int \<Rightarrow> int \<Rightarrow> int \<Rightarrow> int" where
  "slli rd rs1 shamt = i_type shamt rs1 1 rd 0x13"

definition srli :: "int \<Rightarrow> int \<Rightarrow> int \<Rightarrow> int" where
  "srli rd rs1 shamt = i_type shamt rs1 5 rd 0x13"

definition srai :: "int \<Rightarrow> int \<Rightarrow> int \<Rightarrow> int" where
  "srai rd rs1 shamt = i_type (0x400 OR shamt) rs1 5 rd 0x13"

definition slti :: "int \<Rightarrow> int \<Rightarrow> int \<Rightarrow> int" where
  "slti rd rs1 imm = i_type imm rs1 2 rd 0x13"

definition slt :: "int \<Rightarrow> int \<Rightarrow> int \<Rightarrow> int" where
  "slt rd rs1 rs2 = r_type 0x00 rs2 rs1 2 rd 0x33"

definition lui :: "int \<Rightarrow> int \<Rightarrow> int" where
  "lui rd imm = u_type imm rd 0x37"

definition auipc :: "int \<Rightarrow> int \<Rightarrow> int" where
  "auipc rd imm = u_type imm rd 0x17"

definition sw :: "int \<Rightarrow> int \<Rightarrow> int \<Rightarrow> int" where
  "sw rs2 offset rs1 = s_type offset rs2 rs1 2 0x23"

definition sh :: "int \<Rightarrow> int \<Rightarrow> int \<Rightarrow> int" where
  "sh rs2 offset rs1 = s_type offset rs2 rs1 1 0x23"

definition sb :: "int \<Rightarrow> int \<Rightarrow> int \<Rightarrow> int" where
  "sb rs2 offset rs1 = s_type offset rs2 rs1 0 0x23"

definition lw :: "int \<Rightarrow> int \<Rightarrow> int \<Rightarrow> int" where
  "lw rd offset rs1 = i_type offset rs1 2 rd 0x03"

definition lh :: "int \<Rightarrow> int \<Rightarrow> int \<Rightarrow> int" where
  "lh rd offset rs1 = i_type offset rs1 1 rd 0x03"

definition lb :: "int \<Rightarrow> int \<Rightarrow> int \<Rightarrow> int" where
  "lb rd offset rs1 = i_type offset rs1 0 rd 0x03"

definition lbu :: "int \<Rightarrow> int \<Rightarrow> int \<Rightarrow> int" where
  "lbu rd offset rs1 = i_type offset rs1 4 rd 0x03"

definition lhu :: "int \<Rightarrow> int \<Rightarrow> int \<Rightarrow> int" where
  "lhu rd offset rs1 = i_type offset rs1 5 rd 0x03"

definition beq :: "int \<Rightarrow> int \<Rightarrow> int \<Rightarrow> int" where
  "beq rs1 rs2 off = b_type off rs2 rs1 0 0x63"

definition bne :: "int \<Rightarrow> int \<Rightarrow> int \<Rightarrow> int" where
  "bne rs1 rs2 off = b_type off rs2 rs1 1 0x63"

definition blt :: "int \<Rightarrow> int \<Rightarrow> int \<Rightarrow> int" where
  "blt rs1 rs2 off = b_type off rs2 rs1 4 0x63"

definition bge :: "int \<Rightarrow> int \<Rightarrow> int \<Rightarrow> int" where
  "bge rs1 rs2 off = b_type off rs2 rs1 5 0x63"

definition jal :: "int \<Rightarrow> int \<Rightarrow> int" where
  "jal rd off = j_type off rd 0x6F"

definition jalr :: "int \<Rightarrow> int \<Rightarrow> int \<Rightarrow> int" where
  "jalr rd rs1 off = i_type off rs1 0 rd 0x67"

definition ecall :: int where
  "ecall = 0x00000073"

definition nop :: int where
  "nop = addi 0 0 0"

definition csrrw :: "int \<Rightarrow> int \<Rightarrow> int \<Rightarrow> int" where
  "csrrw rd csr rs1 =
     push_bit 20 csr OR push_bit 15 rs1 OR push_bit 12 1 OR push_bit 7 rd OR 0x73"

definition csrrs :: "int \<Rightarrow> int \<Rightarrow> int \<Rightarrow> int" where
  "csrrs rd csr rs1 =
     push_bit 20 csr OR push_bit 15 rs1 OR push_bit 12 2 OR push_bit 7 rd OR 0x73"

section \<open>Field extraction following the bit layout of the spec\<close>

text \<open>
  The repository has no decoder.  The round-trip and parity properties are stated against
  the field extraction that section 4.1 of the spec describes: \<open>bits hi lo w\<close> is the
  field \<open>w[hi:lo]\<close> of a word, immediates are reassembled from their scattered pieces,
  with a zero least-significant bit for the B and J formats, and sign-extended from
  their top bit.  Each decoder returns the operands in the order the encoder takes them.
\<close>

definition bits :: "nat \<Rightarrow> nat \<Rightarrow> int \<Rightarrow> int" where
  "bits hi lo w = take_bit (hi + 1 - lo) (drop_bit lo w)"

definition i_imm_of :: "int \<Rightarrow> int" where
  "i_imm_of w = signed_take_bit 11 (bits 31 20 w)"

definition s_imm_of :: "int \<Rightarrow> int" where
  "s_imm_of w = signed_take_bit 11 (push_bit 5 (bits 31 25 w) OR bits 11 7 w)"

definition b_imm_of :: "int \<Rightarrow> int" where
  "b_imm_of w = signed_take_bit 12
     (push_bit 12 (bits 31 31 w) OR push_bit 11 (bits 7 7 w)
        OR push_bit 5 (bits 30 25 w) OR push_bit 1 (bits 11 8 w))"

definition u_imm_of :: "int \<Rightarrow> int" where
  "u_imm_of w = push_bit 12 (bits 31 12 w)"

definition j_imm_of :: "int \<Rightarrow> int" where
  "j_imm_of w = signed_take_bit 20
     (push_bit 20 (bits 31 31 w) OR push_bit 12 (bits 19 12 w)
        OR push_bit 11 (bits 20 20 w) OR push_bit 1 (bits 30 21 w))"

definition decode_r :: "int \<Rightarrow> int \<times> int \<times> int \<times> int \<times> int \<times> int" where
  "decode_r w =
     (bits 31 25 w, bits 24 20 w, bits 19 15 w, bits 14 12 w, bits 11 7 w, bits 6 0 w)"

definition decode_i :: "int \<Rightarrow> int \<times> int \<times> int \<times> int \<times> int" where
  "decode_i w = (i_imm_of w, bits 19 15 w, bits 14 12 w, bits 11 7 w, bits 6 0 w)"

definition decode_s :: "int \<Rightarrow> int \<times> int \<times> int \<times> int \<times> int" where
  "decode_s w = (s_imm_of w, bits 24 20 w, bits 19 15 w, bits 14 12 w, bits 6 0 w)"

definition decode_b :: "int \<Rightarrow> int \<times> int \<times> int \<times> int \<times> int" where
  "decode_b w = (b_imm_of w, bits 24 20 w, bits 19 15 w, bits 14 12 w, bits 6 0 w)"

definition decode_u :: "int \<Rightarrow> int \<times> int \<times> int" where
  "decode_u w = (u_imm_of w, bits 11 7 w, bits 6 0 w)"

definition decode_j :: "int \<Rightarrow> int \<times> int \<times> int" where
  "decode_j w = (j_imm_of w, bits 11 7 w, bits 6 0 w)"

subsection \<open>Operand domains\<close>

definition is_reg :: "int \<Rightarrow> bool" where
  "is_reg r = (0 \<le> r \<and> r < 32)"

definition is_funct3 :: "int \<Rightarrow> bool" where
  "is_funct3 f = (0 \<le> f \<and> f < 8)"

definition is_funct7 :: "int \<Rightarrow> bool" where
  "is_funct7 f = (0 \<le> f \<and> f < 128)"

definition is_opcode :: "int \<Rightarrow> bool" where
  "is_opcode c = (0 \<le> c \<and> c < 128)"

definition is_csr :: "int \<Rightarrow> bool" where
  "is_csr c = (0 \<le> c \<and> c < 4096)"

definition imm12_ok :: "int \<Rightarrow> bool" where
  "imm12_ok imm = (- 2048 \<le> imm \<and> imm < 2048)"

definition imm13_even_ok :: "int \<Rightarrow> bool" where
  "imm13_even_ok imm = (- 4096 \<le> imm \<and> imm < 4096 \<and> even imm)"

definition imm21_even_ok :: "int \<Rightarrow> bool" where
  "imm21_even_ok imm = (- 1048576 \<le> imm \<and> imm < 1048576 \<and> even imm)"

definition imm_upper_ok :: "int \<Rightarrow> bool" where
  "imm_upper_ok imm = (imm AND 0xFFFFF000 = imm)"

definition word32 :: "int \<Rightarrow> bool" where
  "word32 w = (0 \<le> w \<and> w < 2 ^ 32 \<and> w AND 0xFFFFFFFF = w)"

text \<open>
  \<open>field_at lo n x\<close> is the value \<open>x\<close> cut to \<open>n\<close> bits and placed at bit \<open>lo\<close>; the
  proofs below write every encoded word as a disjunction of such fields.
\<close>

definition field_at :: "nat \<Rightarrow> nat \<Rightarrow> int \<Rightarrow> int" where
  "field_at lo n x = push_bit lo (take_bit n x)"

section \<open>Program image and serializer (firmware/gen_firmware.py)\<close>

datatype py_exn = IndexError | ValueError | AttributeError

text \<open>
  Python's \<open>xs[i] = v\<close> on a list: a negative index counts from the end, and an index
  outside the list raises \<open>IndexError\<close>.
\<close>

definition list_setitem :: "'a list \<Rightarrow> int \<Rightarrow> 'a \<Rightarrow> py_exn + 'a list" where
  "list_setitem xs i v =
     (if 0 \<le> i \<and> i < int (length xs) then Inr (xs[nat i := v])
      else if i < 0 \<and> - int (length xs) \<le> i then Inr (xs[nat (int (length xs) + i) := v])
      else Inl IndexError)"

text \<open>The list literal bound to \<open>program\<close>, before the patch.\<close>

definition program_initial :: "int list" where
  "program_initial =
    [addi 1 0 42, addi 2 0 10, add 3 1 2, sub 4 1 2, andi 5 3 0xFF, ori 6 0 0x55,
     xori 7 6 0xFF, slli 8 2 4, srli 9 8 2, slti 18 4 100, slt 19 2 1,
     lui 10 0x10000000, sw 3 0 10, lw 11 0 10, sb 6 4 10, lbu 12 4 10,
     lui 13 0x20000000, addi 14 0 0xFF, sw 14 8 13, sw 3 0 13,
     beq 11 3 8, addi 15 0 0xDE, addi 15 0 1, bne 1 2 8, addi 15 0 0xDE, addi 15 0 2,
     jal 16 8, addi 17 0 0xDE, addi 17 0 3, jalr 20 16 0,
     lui 20 0x20000000, addi 20 20 0x10C, addi 21 0 8, sw 21 0 20,
     lui 20 0x20000000, addi 20 20 0x100, addi 22 0 0x48, sw 22 0 20,
     addi 23 0 100, addi 23 23 (- 1), bne 23 0 (- 4),
     auipc 20 0x00000000,
     csrrs 21 0xB00 0,
     ecall, nop, jal 0 (- 4)]"

text \<open>The statement \<open>program[18] = jalr(x20, x16, 12)\<close>.\<close>

definition program_patched :: "py_exn + int list" where
  "program_patched = list_setitem program_initial 18 (jalr 20 16 12)"

text \<open>
  The format specification \<open>08X\<close> applied to an integer: upper-case hexadecimal digits,
  padded with zeros after the sign to a total width of at least 8.
\<close>

definition hex_char :: "nat \<Rightarrow> char" where
  "hex_char d = ''0123456789ABCDEF'' ! d"

fun hex_digits :: "nat \<Rightarrow> string" where
  "hex_digits n =
     (if n < 16 then [hex_char n] else hex_digits (n div 16) @ [hex_char (n mod 16)])"

declare hex_digits.simps [simp del]

definition zero_pad :: "nat \<Rightarrow> string \<Rightarrow> string" where
  "zero_pad w s = replicate (w - length s) (CHR ''0'') @ s"

definition format_08X :: "int \<Rightarrow> string" where
  "format_08X v =
     (if v < 0 then CHR ''-'' # zero_pad 7 (hex_digits (nat (- v)))
      else zero_pad 8 (hex_digits (nat v)))"

text \<open>
  The serialization loop: the file is opened for writing, so it starts empty, and every
  \<open>f.write\<close> appends the formatted word and a newline.
\<close>

fun write_all :: "string \<Rightarrow> int list \<Rightarrow> string" where
  "write_all f [] = f"
| "write_all f (instr # rest) =
     write_all (f @ format_08X (instr AND 0xFFFFFFFF) @ [CHR 0x0A]) rest"

definition firmware_hex :: "int list \<Rightarrow> string" where
  "firmware_hex prog = write_all [] prog"

subsection \<open>Reading the image back\<close>

text \<open>
  How a loader reads the text of the image: \<open>split_lines\<close> cuts it at the newlines,
  \<open>is_hex_line\<close> is the format of one line, \<open>parse_hex\<close> its value.
\<close>

fun split_lines :: "string \<Rightarrow> string \<Rightarrow> string list" where
  "split_lines cur [] = (if cur = [] then [] else [cur])"
| "split_lines cur (c # cs) =
     (if c = CHR 0x0A then cur # split_lines [] cs else split_lines (cur @ [c]) cs)"

definition is_upper_hex :: "char \<Rightarrow> bool" where
  "is_upper_hex c = (c \<in> set ''0123456789ABCDEF'')"

definition is_hex_line :: "string \<Rightarrow> bool" where
  "is_hex_line l = (length l = 8 \<and> list_all is_upper_hex l)"

definition hex_value :: "char \<Rightarrow> nat" where
  "hex_value c = (let k = of_char c :: nat in if k < 58 then k - 48 else k - 55)"

fun parse_hex :: "nat \<Rightarrow> string \<Rightarrow> nat" where
  "parse_hex acc [] = acc"
| "parse_hex acc (c # cs) = parse_hex (16 * acc + hex_value c) cs"

section \<open>Register observation and waiters (cocotb/test_brv32p_soc.py)\<close>

text \<open>
  The testbench sees the device under test only through its register file:
  \<open>regs d idx\<close> is the outcome of \<open>int(dut.u_core.u_regfile.regs[idx].value)\<close> in the
  DUT state \<open>d\<close>, which raises when the signal is absent, the index is outside the
  array, or the value has unresolved bits.
\<close>

record dut =
  regs :: "int \<Rightarrow> py_exn + int"

definition get_reg :: "dut \<Rightarrow> int \<Rightarrow> py_exn + int" where
  "get_reg d idx = (if idx = 0 then Inr 0 else regs d idx)"

text \<open>The decimal rendering of \<open>{idx}\<close> in the warning of \<open>wait_reg\<close>.\<close>

fun dec_digits :: "nat \<Rightarrow> string" where
  "dec_digits n =
     (if n < 10 then [hex_char n] else dec_digits (n div 10) @ [hex_char (n mod 10)])"

declare dec_digits.simps [simp del]

definition str_int :: "int \<Rightarrow> string" where
  "str_int i = (if i < 0 then CHR ''-'' # dec_digits (nat (- i)) else dec_digits (nat i))"

definition timeout_message :: "int \<Rightarrow> int \<Rightarrow> string" where
  "timeout_message idx val =
     ''Timeout waiting for x'' @ str_int idx @ '' = 0x'' @ format_08X val"

text \<open>
  A waiter runs against the DUT as the clock advances: \<open>tr k\<close> is the state of the DUT
  right after the \<open>k\<close>-th rising edge that follows the call, and \<open>tr 0\<close> the state at the
  moment of the call.  Each \<open>await RisingEdge(dut.clk)\<close> moves to the next state.  The
  outcome records the returned flag, the number of edges awaited and the warnings
  logged.  The argument \<open>n\<close> of a loop is the number of iterations of
  \<open>for _ in range(timeout)\<close> that remain, \<open>k\<close> the edges awaited so far.  The
  \<open>try\<close>/\<open>except Exception: pass\<close> around the observation turns a failed read into
  the next iteration.
\<close>

record wait_outcome =
  ok :: bool
  edges :: nat
  warnings :: "string list"

fun wait_reg_loop ::
  "(nat \<Rightarrow> dut) \<Rightarrow> int \<Rightarrow> int \<Rightarrow> nat \<Rightarrow> nat \<Rightarrow> py_exn + wait_outcome" where
  "wait_reg_loop tr idx val 0 k =
     Inr \<lparr>ok = False, edges = k, warnings = [timeout_message idx val]\<rparr>"
| "wait_reg_loop tr idx val (Suc n) k =
     (case get_reg (tr (Suc k)) idx of
        Inl e \<Rightarrow> wait_reg_loop tr idx val n (Suc k)
      | Inr v \<Rightarrow>
          if v = val then Inr \<lparr>ok = True, edges = Suc k, warnings = []\<rparr>
          else wait_reg_loop tr idx val n (Suc k))"

definition wait_reg :: "(nat \<Rightarrow> dut) \<Rightarrow> int \<Rightarrow> int \<Rightarrow> int \<Rightarrow> py_exn + wait_outcome" where
  "wait_reg tr idx val timeout = wait_reg_loop tr idx val (nat timeout) 0"

fun wait_reg_nonzero_loop ::
  "(nat \<Rightarrow> dut) \<Rightarrow> int \<Rightarrow> nat \<Rightarrow> nat \<Rightarrow> py_exn + wait_outcome" where
  "wait_reg_nonzero_loop tr idx 0 k = Inr \<lparr>ok = False, edges = k, warnings = []\<rparr>"
| "wait_reg_nonzero_loop tr idx (Suc n) k =
     (case get_reg (tr (Suc k)) idx of
        Inl e \<Rightarrow> wait_reg_nonzero_loop tr idx n (Suc k)
      | Inr v \<Rightarrow>
          if v \<noteq> 0 then Inr \<lparr>ok = True, edges = Suc k, warnings = []\<rparr>
          else wait_reg_nonzero_loop tr idx n (Suc k))"

definition wait_reg_nonzero :: "(nat \<Rightarrow> dut) \<Rightarrow> int \<Rightarrow> int \<Rightarrow> py_exn + wait_outcome" where
  "wait_reg_nonzero tr idx timeout = wait_reg_nonzero_loop tr idx (nat timeout) 0"

section \<open>Bit fields of the encoded words\<close>

lemma and_lit:
  "(x::int) AND 0xFFF = take_bit 12 x"
  "(x::int) AND 0x7F = take_bit 7 x"
  "(x::int) AND 0x1F = take_bit 5 x"
  "(x::int) AND 0x3F = take_bit 6 x"
  "(x::int) AND 0xF = take_bit 4 x"
  "(x::int) AND 1 = take_bit 1 x"
  "(x::int) AND 0x3FF = take_bit 10 x"
  "(x::int) AND 0xFF = take_bit 8 x"
  "(x::int) AND 0xFFFFFFFF = take_bit 32 x"
  by (simp_all add: take_bit_eq_mask mask_eq_exp_minus_1)

lemma and_shifted_mask:
  "(c::int) = push_bit lo (mask n) \<Longrightarrow> x AND c = field_at lo n (drop_bit lo x)"
  unfolding field_at_def
  by (rule bit_eqI) (auto simp add: bit_simps)

lemma and_hi20: "(x::int) AND 0xFFFFF000 = field_at 12 20 (drop_bit 12 x)"
  by (rule and_shifted_mask) (simp add: mask_eq_exp_minus_1 push_bit_eq_mult)

lemma and_b_mask: "(x::int) AND 0x1FFE = field_at 1 12 (drop_bit 1 x)"
  by (rule and_shifted_mask) (simp add: mask_eq_exp_minus_1 push_bit_eq_mult)

lemma and_j_mask: "(x::int) AND 0x1FFFFE = field_at 1 20 (drop_bit 1 x)"
  by (rule and_shifted_mask) (simp add: mask_eq_exp_minus_1 push_bit_eq_mult)

lemma bits_or: "bits hi lo (a OR b) = bits hi lo a OR bits hi lo b"
  by (simp add: bits_def drop_bit_or take_bit_or)

lemma bits_field_hit: "hi + 1 = lo + n \<Longrightarrow> bits hi lo (field_at lo n x) = field_at 0 n x"
  unfolding bits_def field_at_def
  by (rule bit_eqI) (auto simp add: bit_simps)

lemma bits_field_miss: "k + m \<le> lo \<or> hi < k \<Longrightarrow> bits hi lo (field_at k m x) = 0"
  unfolding bits_def field_at_def
  by (rule bit_eqI) (auto simp add: bit_simps)

lemma field_join:
  "field_at (lo + n) m (drop_bit (lo + n) x) OR field_at lo n (drop_bit lo x)
     = field_at lo (n + m) (drop_bit lo x)"
  unfolding field_at_def
  by (rule bit_eqI) (auto simp add: bit_simps)

lemma field_of_field:
  "lo \<le> k \<Longrightarrow> k + m \<le> lo + n \<Longrightarrow>
     take_bit m (drop_bit k (field_at lo n (drop_bit lo x))) = take_bit m (drop_bit k x)"
  unfolding field_at_def
  by (rule bit_eqI) (auto simp add: bit_simps)

lemma field_fits: "lo + n \<le> w \<Longrightarrow> take_bit w (field_at lo n x) = field_at lo n x"
  unfolding field_at_def
  by (rule bit_eqI) (auto simp add: bit_simps)

lemma dom_take_bit:
  "is_reg r \<Longrightarrow> take_bit 5 r = r"
  "is_funct3 f3 \<Longrightarrow> take_bit 3 f3 = f3"
  "is_funct7 f7 \<Longrightarrow> take_bit 7 f7 = f7"
  "is_opcode c \<Longrightarrow> take_bit 7 c = c"
  "is_csr csr \<Longrightarrow> take_bit 12 csr = csr"
  by (simp_all add: is_reg_def is_funct3_def is_funct7_def is_opcode_def is_csr_def
      take_bit_int_eq_self)

text \<open>Each encoder as a disjunction of disjoint fields.\<close>

lemma r_type_fields:
  assumes "is_funct7 f7" "is_reg rs2" "is_reg rs1" "is_funct3 f3" "is_reg rd" "is_opcode c"
  shows "r_type f7 rs2 rs1 f3 rd c =
     field_at 25 7 f7 OR field_at 20 5 rs2 OR field_at 15 5 rs1 OR field_at 12 3 f3
       OR field_at 7 5 rd OR field_at 0 7 c"
  using assms by (simp add: r_type_def field_at_def dom_take_bit)

lemma i_type_fields:
  assumes "is_reg rs1" "is_funct3 f3" "is_reg rd" "is_opcode c"
  shows "i_type imm rs1 f3 rd c =
     field_at 20 12 imm OR field_at 15 5 rs1 OR field_at 12 3 f3
       OR field_at 7 5 rd OR field_at 0 7 c"
  using assms by (simp add: i_type_def field_at_def dom_take_bit and_lit)

lemma s_type_fields:
  assumes "is_reg rs2" "is_reg rs1" "is_funct3 f3" "is_opcode c"
  shows "s_type imm rs2 rs1 f3 c =
     field_at 25 7 (drop_bit 5 imm) OR field_at 20 5 rs2 OR field_at 15 5 rs1
       OR field_at 12 3 f3 OR field_at 7 5 imm OR field_at 0 7 c"
  using assms by (simp add: s_type_def field_at_def dom_take_bit and_lit)

lemma b_type_fields:
  assumes "is_reg rs2" "is_reg rs1" "is_funct3 f3" "is_opcode c"
  shows "b_type imm rs2 rs1 f3 c =
     field_at 31 1 (drop_bit 12 imm) OR field_at 25 6 (drop_bit 5 imm)
       OR field_at 20 5 rs2 OR field_at 15 5 rs1 OR field_at 12 3 f3
       OR field_at 8 4 (drop_bit 1 imm) OR field_at 7 1 (drop_bit 11 imm) OR field_at 0 7 c"
  using assms by (simp add: b_type_def field_at_def dom_take_bit and_lit)

lemma u_type_fields:
  assumes "is_reg rd" "is_opcode c"
  shows "u_type imm rd c = field_at 12 20 (drop_bit 12 imm) OR field_at 7 5 rd OR field_at 0 7 c"
  using assms by (simp add: u_type_def and_hi20) (simp add: field_at_def dom_take_bit)

lemma j_type_fields:
  assumes "is_reg rd" "is_opcode c"
  shows "j_type imm rd c =
     field_at 31 1 (drop_bit 20 imm) OR field_at 21 10 (drop_bit 1 imm)
       OR field_at 20 1 (drop_bit 11 imm) OR field_at 12 8 (drop_bit 12 imm)
       OR field_at 7 5 rd OR field_at 0 7 c"
  using assms by (simp add: j_type_def field_at_def dom_take_bit and_lit)


lemma push_field: "push_bit k (field_at 0 n x) = field_at k n x"
  by (simp add: field_at_def)

lemma dom_field:
  "is_reg r \<Longrightarrow> field_at 0 5 r = r"
  "is_funct3 f3 \<Longrightarrow> field_at 0 3 f3 = f3"
  "is_funct7 f7 \<Longrightarrow> field_at 0 7 f7 = f7"
  "is_opcode c \<Longrightarrow> field_at 0 7 c = c"
  by (simp_all add: field_at_def dom_take_bit)

lemmas bits_simps = bits_or bits_field_hit bits_field_miss push_field

lemma low_clear_field:
  assumes "take_bit lo x = 0"
  shows "field_at lo n (drop_bit lo x) = take_bit (lo + n) x"
proof -
  have low: "\<not> bit x k" if "k < lo" for k
  proof -
    have "bit (take_bit lo x) k = bit (0::int) k"
      using assms by simp
    with that show ?thesis
      by (simp add: bit_take_bit_iff)
  qed
  show ?thesis
    unfolding field_at_def
  proof (rule bit_eqI)
    fix k
    show "bit (push_bit lo (take_bit n (drop_bit lo x))) k = bit (take_bit (lo + n) x) k"
      using low [of k] by (cases "k < lo") (auto simp add: bit_simps)
  qed
qed

lemma even_field: "even x \<Longrightarrow> field_at (Suc 0) n (drop_bit (Suc 0) x) = take_bit (Suc n) x"
  using low_clear_field [of "Suc 0" x n] by (simp add: take_bit_Suc_0)

lemma s_join: "field_at 5 7 (drop_bit 5 imm) OR field_at 0 5 imm = field_at 0 12 imm"
  using field_join [of 0 5 7 imm] by simp

lemma b_join:
  "field_at 12 1 (drop_bit 12 imm) OR field_at 11 1 (drop_bit 11 imm)
     OR field_at 5 6 (drop_bit 5 imm) OR field_at 1 4 (drop_bit 1 imm)
   = field_at 1 12 (drop_bit 1 imm)"
proof -
  have a: "field_at 5 6 (drop_bit 5 imm) OR field_at 1 4 (drop_bit 1 imm)
      = field_at 1 10 (drop_bit 1 imm)"
    using field_join [of 1 4 6 imm] by simp
  have b: "field_at 11 1 (drop_bit 11 imm) OR field_at 1 10 (drop_bit 1 imm)
      = field_at 1 11 (drop_bit 1 imm)"
    using field_join [of 1 10 1 imm] by simp
  have c: "field_at 12 1 (drop_bit 12 imm) OR field_at 1 11 (drop_bit 1 imm)
      = field_at 1 12 (drop_bit 1 imm)"
    using field_join [of 1 11 1 imm] by simp
  show ?thesis
    by (simp only: a b c)
qed

lemma j_join:
  "field_at 20 1 (drop_bit 20 imm) OR field_at 12 8 (drop_bit 12 imm)
     OR field_at 11 1 (drop_bit 11 imm) OR field_at 1 10 (drop_bit 1 imm)
   = field_at 1 20 (drop_bit 1 imm)"
proof -
  have a: "field_at 11 1 (drop_bit 11 imm) OR field_at 1 10 (drop_bit 1 imm)
      = field_at 1 11 (drop_bit 1 imm)"
    using field_join [of 1 10 1 imm] by simp
  have b: "field_at 12 8 (drop_bit 12 imm) OR field_at 1 11 (drop_bit 1 imm)
      = field_at 1 19 (drop_bit 1 imm)"
    using field_join [of 1 11 8 imm] by simp
  have c: "field_at 20 1 (drop_bit 20 imm) OR field_at 1 19 (drop_bit 1 imm)
      = field_at 1 20 (drop_bit 1 imm)"
    using field_join [of 1 19 1 imm] by simp
  show ?thesis
    by (simp only: a b c)
qed

lemma i_imm_of_i_type:
  assumes "is_reg rs1" "is_funct3 f3" "is_reg rd" "is_opcode c"
  shows "i_imm_of (i_type imm rs1 f3 rd c) = signed_take_bit 11 imm"
  by (simp add: i_imm_of_def i_type_fields [OF assms] bits_simps)
     (simp add: field_at_def signed_take_bit_take_bit)

lemma s_imm_of_s_type:
  assumes "is_reg rs2" "is_reg rs1" "is_funct3 f3" "is_opcode c"
  shows "s_imm_of (s_type imm rs2 rs1 f3 c) = signed_take_bit 11 imm"
  by (simp add: s_imm_of_def s_type_fields [OF assms] bits_simps s_join)
     (simp add: field_at_def signed_take_bit_take_bit)

lemma b_imm_of_b_type:
  assumes "is_reg rs2" "is_reg rs1" "is_funct3 f3" "is_opcode c"
  shows "b_imm_of (b_type imm rs2 rs1 f3 c) = signed_take_bit 12 (field_at 1 12 (drop_bit 1 imm))"
  by (simp add: b_imm_of_def b_type_fields [OF assms] bits_simps b_join [unfolded One_nat_def])

lemma u_imm_of_u_type:
  assumes "is_reg rd" "is_opcode c"
  shows "u_imm_of (u_type imm rd c) = imm AND 0xFFFFF000"
  by (simp add: u_imm_of_def u_type_fields [OF assms] bits_simps and_hi20)

lemma j_imm_of_j_type:
  assumes "is_reg rd" "is_opcode c"
  shows "j_imm_of (j_type imm rd c) = signed_take_bit 20 (field_at 1 20 (drop_bit 1 imm))"
  by (simp add: j_imm_of_def j_type_fields [OF assms] bits_simps j_join [unfolded One_nat_def])

lemma signed_even_field:
  assumes "- (2 ^ n) \<le> imm" "imm < 2 ^ n" "even imm"
  shows "signed_take_bit n (field_at 1 n (drop_bit 1 imm)) = imm"
  using assms by (simp add: even_field signed_take_bit_take_bit signed_take_bit_int_eq_self)

lemma decode_r_type:
  assumes "is_funct7 f7" "is_reg rs2" "is_reg rs1" "is_funct3 f3" "is_reg rd" "is_opcode c"
  shows "decode_r (r_type f7 rs2 rs1 f3 rd c) = (f7, rs2, rs1, f3, rd, c)"
  by (simp add: decode_r_def r_type_fields [OF assms] bits_simps, simp add: dom_field assms)

lemma decode_i_type:
  assumes "is_reg rs1" "is_funct3 f3" "is_reg rd" "is_opcode c" "imm12_ok imm"
  shows "decode_i (i_type imm rs1 f3 rd c) = (imm, rs1, f3, rd, c)"
proof -
  have "signed_take_bit 11 imm = imm"
    using assms(5) by (simp add: imm12_ok_def signed_take_bit_int_eq_self)
  then show ?thesis
    using assms(1-4)
    by (simp add: decode_i_def i_imm_of_i_type) (simp add: i_type_fields bits_simps, simp add: dom_field)
qed

lemma decode_s_type:
  assumes "is_reg rs2" "is_reg rs1" "is_funct3 f3" "is_opcode c" "imm12_ok imm"
  shows "decode_s (s_type imm rs2 rs1 f3 c) = (imm, rs2, rs1, f3, c)"
proof -
  have "signed_take_bit 11 imm = imm"
    using assms(5) by (simp add: imm12_ok_def signed_take_bit_int_eq_self)
  then show ?thesis
    using assms(1-4)
    by (simp add: decode_s_def s_imm_of_s_type) (simp add: s_type_fields bits_simps, simp add: dom_field)
qed

lemma decode_b_type:
  assumes "is_reg rs2" "is_reg rs1" "is_funct3 f3" "is_opcode c" "imm13_even_ok imm"
  shows "decode_b (b_type imm rs2 rs1 f3 c) = (imm, rs2, rs1, f3, c)"
proof -
  have "signed_take_bit 12 (field_at 1 12 (drop_bit 1 imm)) = imm"
    using assms(5) by (intro signed_even_field) (simp_all add: imm13_even_ok_def)
  then show ?thesis
    using assms(1-4)
    by (simp add: decode_b_def b_imm_of_b_type) (simp add: b_type_fields bits_simps, simp add: dom_field)
qed

lemma decode_u_type:
  assumes "is_reg rd" "is_opcode c" "imm_upper_ok imm"
  shows "decode_u (u_type imm rd c) = (imm, rd, c)"
  using assms
  by (simp add: decode_u_def u_imm_of_u_type imm_upper_ok_def)
     (simp add: u_type_fields bits_simps, simp add: dom_field)

lemma decode_j_type:
  assumes "is_reg rd" "is_opcode c" "imm21_even_ok imm"
  shows "decode_j (j_type imm rd c) = (imm, rd, c)"
proof -
  have "signed_take_bit 20 (field_at 1 20 (drop_bit 1 imm)) = imm"
    using assms(3) by (intro signed_even_field) (simp_all add: imm21_even_ok_def)
  then show ?thesis
    using assms(1-2)
    by (simp add: decode_j_def j_imm_of_j_type) (simp add: j_type_fields bits_simps, simp add: dom_field)
qed



section \<open>Round trip through the bit layout\<close>

text \<open>
  C4 as stated lists \<open>-1\<close> among the immediates that every format reproduces.  The B
  format does not store bit 0 of its immediate, so \<open>b_type (-1) 0 0 0 0x63\<close> decodes to
  the immediate \<open>-2\<close>, not \<open>-1\<close>.
\<close>

theorem round_trip_fails_b_type_minus_one:
  "decode_b (b_type (- 1) 0 0 0 0x63) = (- 2, 0, 0, 0, 0x63)
     \<and> decode_b (b_type (- 1) 0 0 0 0x63) \<noteq> (- 1, 0, 0, 0, 0x63)"
  by (simp add: decode_b_def b_imm_of_def b_type_def bits_def)

text \<open>
  C4 (amended).  For every format encoder, with register indices in 0..31, funct3 in
  0..7, funct7 in 0..127, a 7-bit opcode and an immediate in the range of its field
  (signed 12-bit for I and S, even signed 13-bit for B, even signed 21-bit for J, only
  bits 31:12 set for U), extracting the fields of the encoded word by the bit layout
  gives back the operands.  The ranges contain the boundary values 0, minimum and
  maximum of each field, and \<open>-1\<close> for the I and S formats only.
\<close>

theorem encode_decode_round_trip:
  assumes "is_funct7 f7" "is_reg rs2" "is_reg rs1" "is_funct3 f3" "is_reg rd" "is_opcode c"
    and "imm12_ok ii" "imm12_ok si" "imm13_even_ok bi" "imm_upper_ok ui" "imm21_even_ok ji"
  shows "decode_r (r_type f7 rs2 rs1 f3 rd c) = (f7, rs2, rs1, f3, rd, c)
     \<and> decode_i (i_type ii rs1 f3 rd c) = (ii, rs1, f3, rd, c)
     \<and> decode_s (s_type si rs2 rs1 f3 c) = (si, rs2, rs1, f3, c)
     \<and> decode_b (b_type bi rs2 rs1 f3 c) = (bi, rs2, rs1, f3, c)
     \<and> decode_u (u_type ui rd c) = (ui, rd, c)
     \<and> decode_j (j_type ji rd c) = (ji, rd, c)"
  using assms
  by (simp add: decode_r_type decode_i_type decode_s_type decode_b_type decode_u_type
      decode_j_type)

theorem encode_decode_round_trip_witness:
  "is_funct7 0x20 \<and> is_reg 2 \<and> is_reg 1 \<and> is_funct3 5 \<and> is_reg 3 \<and> is_opcode 0x33
     \<and> imm12_ok (- 1) \<and> imm12_ok (- 2048) \<and> imm13_even_ok (- 4096)
     \<and> imm_upper_ok 0xFFFFF000 \<and> imm21_even_ok 1048574
     \<and> decode_r (r_type 0x20 2 1 5 3 0x33) = (0x20, 2, 1, 5, 3, 0x33)
     \<and> decode_i (i_type (- 1) 1 5 3 0x33) = (- 1, 1, 5, 3, 0x33)
     \<and> decode_s (s_type (- 2048) 2 1 5 0x33) = (- 2048, 2, 1, 5, 0x33)
     \<and> decode_b (b_type (- 4096) 2 1 5 0x33) = (- 4096, 2, 1, 5, 0x33)
     \<and> decode_u (u_type 0xFFFFF000 3 0x33) = (0xFFFFF000, 3, 0x33)
     \<and> decode_j (j_type 1048574 3 0x33) = (1048574, 3, 0x33)"
proof -
  have h: "is_funct7 0x20" "is_reg 2" "is_reg 1" "is_funct3 5" "is_reg 3" "is_opcode 0x33"
    "imm12_ok (- 1)" "imm12_ok (- 2048)" "imm13_even_ok (- 4096)"
    "imm_upper_ok 0xFFFFF000" "imm21_even_ok 1048574"
    by (simp_all add: is_funct7_def is_reg_def is_funct3_def is_opcode_def imm12_ok_def
        imm13_even_ok_def imm_upper_ok_def imm21_even_ok_def)
  from encode_decode_round_trip [OF h] h show ?thesis
    by (intro conjI) (assumption | erule conjE)+
qed

section \<open>Truncation of immediates\<close>

lemma take_drop_take:
  "k + m \<le> n \<Longrightarrow> take_bit m (drop_bit k (take_bit n x)) = take_bit m (drop_bit k (x::int))"
  by (rule bit_eqI) (auto simp add: bit_simps)

lemma i_type_mask: "i_type imm rs1 f3 rd c = i_type (imm mod 2 ^ 12) rs1 f3 rd c"
proof -
  have m: "imm mod 2 ^ 12 = take_bit 12 imm"
    by (simp add: take_bit_eq_mod)
  show ?thesis
    unfolding m by (simp add: i_type_def and_lit)
qed

lemma s_type_mask: "s_type imm rs2 rs1 f3 c = s_type (imm mod 2 ^ 12) rs2 rs1 f3 c"
proof -
  have m: "imm mod 2 ^ 12 = take_bit 12 imm"
    by (simp add: take_bit_eq_mod)
  have "take_bit 7 (drop_bit 5 (take_bit 12 imm)) = take_bit 7 (drop_bit 5 imm)"
    by (rule take_drop_take) simp
  then show ?thesis
    unfolding m by (simp add: s_type_def and_lit)
qed

lemma b_type_mask: "b_type imm rs2 rs1 f3 c = b_type (imm AND 0x1FFE) rs2 rs1 f3 c"
proof -
  let ?m = "field_at 1 12 (drop_bit 1 imm)"
  have "take_bit 1 (drop_bit 12 ?m) = take_bit 1 (drop_bit 12 imm)"
    by (rule field_of_field) simp_all
  moreover have "take_bit 6 (drop_bit 5 ?m) = take_bit 6 (drop_bit 5 imm)"
    by (rule field_of_field) simp_all
  moreover have "take_bit 4 (drop_bit 1 ?m) = take_bit 4 (drop_bit 1 imm)"
    by (rule field_of_field) simp_all
  moreover have "take_bit 1 (drop_bit 11 ?m) = take_bit 1 (drop_bit 11 imm)"
    by (rule field_of_field) simp_all
  ultimately show ?thesis
    unfolding b_type_def Let_def and_b_mask and_lit by (simp only:)
qed

lemma u_type_mask: "u_type imm rd c = u_type (imm AND 0xFFFFF000) rd c"
  by (simp add: u_type_def and.assoc)

lemma j_type_mask: "j_type imm rd c = j_type (imm AND 0x1FFFFE) rd c"
proof -
  let ?m = "field_at 1 20 (drop_bit 1 imm)"
  have "take_bit 1 (drop_bit 20 ?m) = take_bit 1 (drop_bit 20 imm)"
    by (rule field_of_field) simp_all
  moreover have "take_bit 10 (drop_bit 1 ?m) = take_bit 10 (drop_bit 1 imm)"
    by (rule field_of_field) simp_all
  moreover have "take_bit 1 (drop_bit 11 ?m) = take_bit 1 (drop_bit 11 imm)"
    by (rule field_of_field) simp_all
  moreover have "take_bit 8 (drop_bit 12 ?m) = take_bit 8 (drop_bit 12 imm)"
    by (rule field_of_field) simp_all
  ultimately show ?thesis
    unfolding j_type_def Let_def and_j_mask and_lit by (simp only:)
qed


text \<open>
  C5.  The encoders are total functions of unbounded integers without any error branch,
  as the source has no check and no \<open>raise\<close>.  An immediate outside the range of its
  field is reduced by the masks: the I and S formats see only \<open>imm mod 2^12\<close>, that is
  bits 11:0, the B format only bits 12:1, the U format only bits 31:12 and the J format
  only bits 20:1.
\<close>

theorem immediate_truncated_by_mask:
  "i_type imm rs1 f3 rd c = i_type (imm mod 2 ^ 12) rs1 f3 rd c
     \<and> s_type imm rs2 rs1 f3 c = s_type (imm mod 2 ^ 12) rs2 rs1 f3 c
     \<and> b_type imm rs2 rs1 f3 c = b_type (imm AND 0x1FFE) rs2 rs1 f3 c
     \<and> u_type imm rd c = u_type (imm AND 0xFFFFF000) rd c
     \<and> j_type imm rd c = j_type (imm AND 0x1FFFFE) rd c"
  using i_type_mask [of imm rs1 f3 rd c] s_type_mask [of imm rs2 rs1 f3 c]
    b_type_mask [of imm rs2 rs1 f3 c] u_type_mask [of imm rd c] j_type_mask [of imm rd c]
  by (intro conjI)

text \<open>
  C6.  For every integer immediate and all other operands, the immediate reassembled
  from a word encoded by \<open>b_type\<close> or \<open>j_type\<close> is even.
\<close>

theorem b_j_immediate_even:
  "even (b_imm_of (b_type imm rs2 rs1 f3 c)) \<and> even (j_imm_of (j_type imm' rd c'))"
  by (simp add: b_imm_of_def j_imm_of_def even_signed_take_bit_iff even_or_iff
      even_push_bit_iff)

section \<open>Encoded words fit in 32 bits\<close>

lemma word32_iff: "word32 w \<longleftrightarrow> take_bit 32 w = w"
  by (auto simp add: word32_def and_lit take_bit_int_eq_self_iff)

lemma r_type_word32:
  assumes "is_funct7 f7" "is_reg rs2" "is_reg rs1" "is_funct3 f3" "is_reg rd" "is_opcode c"
  shows "word32 (r_type f7 rs2 rs1 f3 rd c)"
  by (simp add: word32_iff r_type_fields [OF assms] take_bit_or field_fits)

lemma i_type_word32:
  assumes "is_reg rs1" "is_funct3 f3" "is_reg rd" "is_opcode c"
  shows "word32 (i_type imm rs1 f3 rd c)"
  by (simp add: word32_iff i_type_fields [OF assms] take_bit_or field_fits)

lemma s_type_word32:
  assumes "is_reg rs2" "is_reg rs1" "is_funct3 f3" "is_opcode c"
  shows "word32 (s_type imm rs2 rs1 f3 c)"
  by (simp add: word32_iff s_type_fields [OF assms] take_bit_or field_fits)

lemma b_type_word32:
  assumes "is_reg rs2" "is_reg rs1" "is_funct3 f3" "is_opcode c"
  shows "word32 (b_type imm rs2 rs1 f3 c)"
  by (simp add: word32_iff b_type_fields [OF assms] take_bit_or field_fits)

lemma u_type_word32:
  assumes "is_reg rd" "is_opcode c"
  shows "word32 (u_type imm rd c)"
  by (simp add: word32_iff u_type_fields [OF assms] take_bit_or field_fits)

lemma j_type_word32:
  assumes "is_reg rd" "is_opcode c"
  shows "word32 (j_type imm rd c)"
  by (simp add: word32_iff j_type_fields [OF assms] take_bit_or field_fits)

lemma const_dom:
  "is_funct3 0" "is_funct3 1" "is_funct3 2" "is_funct3 4" "is_funct3 5" "is_funct3 6"
  "is_funct3 7" "is_funct7 0x00" "is_funct7 0x20"
  "is_opcode 0x13" "is_opcode 0x33" "is_opcode 0x37" "is_opcode 0x17" "is_opcode 0x23"
  "is_opcode 0x03" "is_opcode 0x63" "is_opcode 0x6F" "is_opcode 0x67" "is_opcode 0x73"
  "is_reg 0"
  by (simp_all add: is_funct3_def is_funct7_def is_opcode_def is_reg_def)

lemma csr_as_i_type:
  assumes "is_csr csr"
  shows "csrrw rd csr rs1 = i_type csr rs1 1 rd 0x73" "csrrs rd csr rs1 = i_type csr rs1 2 rd 0x73"
  using assms by (simp_all add: csrrw_def csrrs_def i_type_def and_lit dom_take_bit)


text \<open>
  C10.  With register indices in 0..31, funct3 in 0..7, funct7 in 0..127, a 7-bit opcode,
  a CSR number in 0..4095 and any integer as immediate or shift amount, every format
  encoder and every mnemonic wrapper returns a word \<open>w\<close> with \<open>0 \<le> w < 2^32\<close>, which the
  mask \<open>& 0xFFFFFFFF\<close> of the serializer leaves unchanged.
\<close>

theorem encoded_word_fits_32_bits:
  assumes "is_reg rd" "is_reg rs1" "is_reg rs2" "is_funct3 f3" "is_funct7 f7" "is_opcode c"
    "is_csr csr"
  shows "word32 (r_type f7 rs2 rs1 f3 rd c) \<and> word32 (i_type imm rs1 f3 rd c)
     \<and> word32 (s_type imm rs2 rs1 f3 c) \<and> word32 (b_type imm rs2 rs1 f3 c)
     \<and> word32 (u_type imm rd c) \<and> word32 (j_type imm rd c)
     \<and> word32 (addi rd rs1 imm) \<and> word32 (add rd rs1 rs2) \<and> word32 (sub rd rs1 rs2)
     \<and> word32 (andi rd rs1 imm) \<and> word32 (ori rd rs1 imm) \<and> word32 (xori rd rs1 imm)
     \<and> word32 (slli rd rs1 shamt) \<and> word32 (srli rd rs1 shamt) \<and> word32 (srai rd rs1 shamt)
     \<and> word32 (slti rd rs1 imm) \<and> word32 (slt rd rs1 rs2)
     \<and> word32 (lui rd imm) \<and> word32 (auipc rd imm)
     \<and> word32 (sw rs2 imm rs1) \<and> word32 (sh rs2 imm rs1) \<and> word32 (sb rs2 imm rs1)
     \<and> word32 (lw rd imm rs1) \<and> word32 (lh rd imm rs1) \<and> word32 (lb rd imm rs1)
     \<and> word32 (lbu rd imm rs1) \<and> word32 (lhu rd imm rs1)
     \<and> word32 (beq rs1 rs2 imm) \<and> word32 (bne rs1 rs2 imm) \<and> word32 (blt rs1 rs2 imm)
     \<and> word32 (bge rs1 rs2 imm)
     \<and> word32 (jal rd imm) \<and> word32 (jalr rd rs1 imm)
     \<and> word32 ecall \<and> word32 nop
     \<and> word32 (csrrw rd csr rs1) \<and> word32 (csrrs rd csr rs1)"
  using assms
  by (intro conjI)
     (simp_all add: addi_def add_def sub_def andi_def ori_def xori_def slli_def srli_def
       srai_def slti_def slt_def lui_def auipc_def sw_def sh_def sb_def lw_def lh_def lb_def
       lbu_def lhu_def beq_def bne_def blt_def bge_def jal_def jalr_def ecall_def nop_def
       csr_as_i_type r_type_word32 i_type_word32 s_type_word32 b_type_word32 u_type_word32
       j_type_word32 const_dom word32_iff [of "0x73"])

theorem encoded_word_fits_32_bits_witness:
  "is_reg 21 \<and> is_reg 0 \<and> is_reg 2 \<and> is_funct3 5 \<and> is_funct7 0x20 \<and> is_opcode 0x33
     \<and> is_csr 0xB00
     \<and> word32 (b_type 8191 2 0 5 0x33) \<and> word32 (addi 21 0 (- 1))
     \<and> word32 (lui 21 (- 1)) \<and> word32 (jal 21 (- 4)) \<and> word32 (csrrs 21 0xB00 0)"
proof -
  have h: "is_reg 21" "is_reg 0" "is_reg 2" "is_funct3 5" "is_funct7 0x20" "is_opcode 0x33"
    "is_csr 0xB00"
    by (simp_all add: is_reg_def is_funct3_def is_funct7_def is_opcode_def is_csr_def)
  note a = encoded_word_fits_32_bits [OF h, of 8191]
    and b = encoded_word_fits_32_bits [OF h, of "- 1"]
    and c = encoded_word_fits_32_bits [OF h, of "- 4"]
  from h a b c show ?thesis
    by simp
qed

section \<open>The patch of the program\<close>

lemma length_program_initial: "length program_initial = 46"
  by (simp add: program_initial_def)

lemma program_initial_18: "program_initial ! 18 = sw 14 8 13"
  by (simp add: program_initial_def)

lemma program_initial_29: "program_initial ! 29 = jalr 20 16 0"
  by (simp add: program_initial_def)

lemma program_patched_eq: "program_patched = Inr (program_initial[18 := jalr 20 16 12])"
  by (simp add: program_patched_def list_setitem_def length_program_initial)

lemma patch_words:
  "sw 14 8 13 = 0x00E6A423" "jalr 20 16 0 = 0x00080A67" "jalr 20 16 12 = 0x00C80A67"
  by (simp_all add: sw_def s_type_def jalr_def i_type_def)

text \<open>
  C3.  The claim, and the comments of the source (\<open>Patch instruction at index 18 (0x74):
  jalr x20, x16, 0\<close>), say that the patch rewrites the JALR.  The JALR emitted at
  address \<open>0x74\<close> is element 29 of the list.  Element 18, at address \<open>0x48\<close>, is the
  store \<open>sw x14, 8(x13)\<close> that sets the GPIO direction.  The assignment succeeds, keeps
  the length, replaces that store by \<open>jalr x20, x16, 12\<close>, and leaves the JALR with
  offset 0.
\<close>

theorem patch_overwrites_store_not_jalr:
  "program_patched = Inr (program_initial[18 := jalr 20 16 12])
     \<and> length (program_initial[18 := jalr 20 16 12]) = length program_initial
     \<and> program_initial ! 18 = sw 14 8 13
     \<and> program_initial ! 18 \<noteq> jalr 20 16 0
     \<and> program_initial ! 29 = jalr 20 16 0
     \<and> program_initial[18 := jalr 20 16 12] ! 18 = jalr 20 16 12
     \<and> program_initial[18 := jalr 20 16 12] ! 29 = jalr 20 16 0
     \<and> jalr 20 16 0 \<noteq> jalr 20 16 12"
  by (simp add: program_patched_eq program_initial_18 program_initial_29
      length_program_initial patch_words)

section \<open>The zero register\<close>

text \<open>
  C8.  For every DUT state, \<open>get_reg\<close> at index 0 returns 0.  The answer is the same
  in any two DUT states, whatever their register file holds or raises: no storage cell
  is read.
\<close>

theorem get_reg_zero: "get_reg d 0 = Inr 0 \<and> get_reg d 0 = get_reg d' 0"
  by (simp add: get_reg_def)

section \<open>Format of the serialized image\<close>

lemma write_all_append:
  "write_all f prog = f @ concat (map (\<lambda>w. format_08X (w AND 0xFFFFFFFF) @ [CHR 0x0A]) prog)"
  by (induction prog arbitrary: f) simp_all

lemma firmware_hex_concat:
  "firmware_hex prog = concat (map (\<lambda>w. format_08X (w AND 0xFFFFFFFF) @ [CHR 0x0A]) prog)"
  by (simp add: firmware_hex_def write_all_append)

lemma nibble_table:
  "\<forall>d \<in> set [0..<16]. is_upper_hex (hex_char d) \<and> hex_value (hex_char d) = d"
  by code_simp

lemma hex_char_upper: "d < 16 \<Longrightarrow> is_upper_hex (hex_char d)"
  using nibble_table by simp

lemma hex_value_hex_char: "d < 16 \<Longrightarrow> hex_value (hex_char d) = d"
  using nibble_table by simp

lemma hex_digits_upper: "list_all is_upper_hex (hex_digits n)"
proof (induction n rule: hex_digits.induct)
  case (1 n)
  show ?case
  proof (cases "n < 16")
    case True
    then show ?thesis
      by (simp add: hex_digits.simps [of n] hex_char_upper)
  next
    case False
    with 1 show ?thesis
      by (simp add: hex_digits.simps [of n] hex_char_upper)
  qed
qed

lemma hex_digits_length: "n < 16 ^ Suc j \<Longrightarrow> length (hex_digits n) \<le> Suc j"
proof (induction n arbitrary: j rule: hex_digits.induct)
  case (1 n)
  show ?case
  proof (cases "n < 16")
    case True
    then show ?thesis
      by (simp add: hex_digits.simps [of n])
  next
    case False
    then obtain i where j: "j = Suc i"
      using 1(2) by (cases j) simp_all
    have "n < 16 ^ Suc i * 16"
      using 1(2) unfolding j by simp
    then have "n div 16 < 16 ^ Suc i"
      by (rule less_mult_imp_div_less)
    then have "length (hex_digits (n div 16)) \<le> Suc i"
      by (rule 1(1) [OF False])
    then show ?thesis
      using False unfolding j by (simp add: hex_digits.simps [of n])
  qed
qed

lemma parse_hex_snoc: "parse_hex acc (xs @ [c]) = 16 * parse_hex acc xs + hex_value c"
  by (induction xs arbitrary: acc) simp_all

lemma parse_hex_digits: "parse_hex 0 (hex_digits n) = n"
proof (induction n rule: hex_digits.induct)
  case (1 n)
  show ?case
  proof (cases "n < 16")
    case True
    then show ?thesis
      by (simp add: hex_digits.simps [of n] hex_value_hex_char)
  next
    case False
    with 1 show ?thesis
      by (simp add: hex_digits.simps [of n] parse_hex_snoc hex_value_hex_char)
  qed
qed

lemma parse_hex_zeros: "parse_hex 0 (replicate m (CHR ''0'') @ s) = parse_hex 0 s"
  by (induction m) (simp_all add: hex_value_def)

lemma format_08X_line:
  assumes "0 \<le> v" "v < 2 ^ 32"
  shows "is_hex_line (format_08X v)" "int (parse_hex 0 (format_08X v)) = v"
proof -
  have "nat v < 16 ^ Suc 7"
    using assms by (simp add: nat_less_iff)
  then have "length (hex_digits (nat v)) \<le> Suc 7"
    by (rule hex_digits_length)
  then have "length (hex_digits (nat v)) \<le> 8"
    by simp
  moreover have "is_upper_hex (CHR ''0'')"
    by (simp add: is_upper_hex_def)
  ultimately show "is_hex_line (format_08X v)"
    using assms(1) hex_digits_upper [of "nat v"]
    by (auto simp add: is_hex_line_def format_08X_def zero_pad_def list_all_iff)
  show "int (parse_hex 0 (format_08X v)) = v"
    using assms(1) by (simp add: format_08X_def zero_pad_def parse_hex_zeros parse_hex_digits)
qed

lemma mask32_range: "0 \<le> w AND 0xFFFFFFFF \<and> (w::int) AND 0xFFFFFFFF < 2 ^ 32"
proof -
  have "w AND 0xFFFFFFFF = take_bit 32 w"
    by (simp add: take_bit_eq_mask mask_eq_exp_minus_1)
  moreover have "take_bit 32 w < (2::int) ^ 32"
    by (rule take_bit_int_less_exp)
  ultimately show ?thesis
    by simp
qed

lemma split_lines_line:
  "CHR 0x0A \<notin> set l \<Longrightarrow> split_lines cur (l @ CHR 0x0A # rest) = (cur @ l) # split_lines [] rest"
  by (induction l arbitrary: cur) auto

lemma split_lines_concat:
  "\<forall>l \<in> set ls. CHR 0x0A \<notin> set l \<Longrightarrow>
     split_lines [] (concat (map (\<lambda>l. l @ [CHR 0x0A]) ls)) = ls"
  by (induction ls) (simp_all add: split_lines_line)

lemma newline_not_hex: "\<not> is_upper_hex (CHR 0x0A)"
  by code_simp

lemma hex_line_no_newline: "is_hex_line l \<Longrightarrow> CHR 0x0A \<notin> set l"
  using newline_not_hex by (auto simp add: is_hex_line_def list_all_iff)

lemma image_lines:
  "split_lines [] (firmware_hex prog) = map (\<lambda>w. format_08X (w AND 0xFFFFFFFF)) prog"
proof -
  have "\<forall>l \<in> set (map (\<lambda>w. format_08X (w AND 0xFFFFFFFF)) prog). CHR 0x0A \<notin> set l"
    using mask32_range by (auto intro!: hex_line_no_newline format_08X_line(1))
  from split_lines_concat [OF this] show ?thesis
    by (simp add: firmware_hex_concat comp_def)
qed

text \<open>
  C9.  For every list of words, the written text is a sequence of newline-terminated
  lines and nothing else, with as many lines as the list has words; line \<open>i\<close> has
  exactly 8 characters, all of them upper-case hexadecimal digits, and its value is word
  \<open>i\<close> masked to 32 bits.
\<close>

theorem serializer_format:
  "firmware_hex prog = concat (map (\<lambda>l. l @ [CHR 0x0A]) (split_lines [] (firmware_hex prog)))
     \<and> length (split_lines [] (firmware_hex prog)) = length prog
     \<and> (\<forall>i < length prog.
           is_hex_line (split_lines [] (firmware_hex prog) ! i)
         \<and> int (parse_hex 0 (split_lines [] (firmware_hex prog) ! i)) = prog ! i AND 0xFFFFFFFF)"
  using mask32_range
  by (simp add: image_lines format_08X_line) (simp add: firmware_hex_concat comp_def)


theorem serializer_format_witness:
  "(2::nat) < length [0x02A00093, - 1, 4294967301 :: int]
     \<and> firmware_hex [0x02A00093, - 1, 4294967301] =
         ''02A00093'' @ [CHR 0x0A] @ ''FFFFFFFF'' @ [CHR 0x0A] @ ''00000005'' @ [CHR 0x0A]
     \<and> length (split_lines [] (firmware_hex [0x02A00093, - 1, 4294967301])) = 3
     \<and> is_hex_line (split_lines [] (firmware_hex [0x02A00093, - 1, 4294967301]) ! 2)
     \<and> parse_hex 0 (split_lines [] (firmware_hex [0x02A00093, - 1, 4294967301]) ! 2) = 5"
proof -
  let ?p = "[0x02A00093, - 1, 4294967301 :: int]"
  have len: "(2::nat) < length ?p"
    by simp
  have img: "firmware_hex ?p =
      ''02A00093'' @ [CHR 0x0A] @ ''FFFFFFFF'' @ [CHR 0x0A] @ ''00000005'' @ [CHR 0x0A]"
    by (simp add: firmware_hex_def format_08X_def zero_pad_def hex_digits.simps hex_char_def)
       (simp add: eval_nat_numeral)
  from serializer_format [of ?p]
  have n: "length (split_lines [] (firmware_hex ?p)) = length ?p"
    and all: "\<forall>i < length ?p. is_hex_line (split_lines [] (firmware_hex ?p) ! i)
         \<and> int (parse_hex 0 (split_lines [] (firmware_hex ?p) ! i)) = ?p ! i AND 0xFFFFFFFF"
    by blast+
  from all len have "is_hex_line (split_lines [] (firmware_hex ?p) ! 2)"
    and "int (parse_hex 0 (split_lines [] (firmware_hex ?p) ! 2)) = ?p ! 2 AND 0xFFFFFFFF"
    by blast+
  moreover have "?p ! 2 AND 0xFFFFFFFF = 5"
    by simp
  ultimately show ?thesis
    using len img n by simp
qed


section \<open>The waiters\<close>

lemma wait_reg_loop_indep:
  "(\<And>j. k < j \<Longrightarrow> tr j = tr' j) \<Longrightarrow>
     wait_reg_loop tr idx val n k = wait_reg_loop tr' idx val n k"
proof (induction n arbitrary: k)
  case 0
  show ?case by simp
next
  case (Suc n)
  have "tr (Suc k) = tr' (Suc k)"
    by (rule Suc.prems) simp
  moreover have "wait_reg_loop tr idx val n (Suc k) = wait_reg_loop tr' idx val n (Suc k)"
    by (rule Suc.IH) (simp add: Suc.prems)
  ultimately show ?case by (simp split: sum.splits)
qed

lemma wait_reg_nonzero_loop_indep:
  "(\<And>j. k < j \<Longrightarrow> tr j = tr' j) \<Longrightarrow>
     wait_reg_nonzero_loop tr idx n k = wait_reg_nonzero_loop tr' idx n k"
proof (induction n arbitrary: k)
  case 0
  show ?case by simp
next
  case (Suc n)
  have "tr (Suc k) = tr' (Suc k)"
    by (rule Suc.prems) simp
  moreover have "wait_reg_nonzero_loop tr idx n (Suc k) = wait_reg_nonzero_loop tr' idx n (Suc k)"
    by (rule Suc.IH) (simp add: Suc.prems)
  ultimately show ?case by (simp split: sum.splits)
qed

lemma wait_reg_loop_success:
  "wait_reg_loop tr idx val n k = Inr r \<Longrightarrow> ok r \<Longrightarrow>
     k < edges r \<and> edges r \<le> k + n \<and> get_reg (tr (edges r)) idx = Inr val"
proof (induction n arbitrary: k)
  case 0
  then show ?case by auto
next
  case (Suc n)
  show ?case
  proof (cases "get_reg (tr (Suc k)) idx = Inr val")
    case True
    with Suc.prems show ?thesis by auto
  next
    case False
    then have "wait_reg_loop tr idx val n (Suc k) = Inr r"
      using Suc.prems(1) by (auto split: sum.splits if_splits)
    from Suc.IH [OF this Suc.prems(2)] show ?thesis by simp
  qed
qed

lemma wait_reg_nonzero_loop_success:
  "wait_reg_nonzero_loop tr idx n k = Inr r \<Longrightarrow> ok r \<Longrightarrow>
     k < edges r \<and> edges r \<le> k + n \<and> (\<exists>v. get_reg (tr (edges r)) idx = Inr v \<and> v \<noteq> 0)"
proof (induction n arbitrary: k)
  case 0
  then show ?case by auto
next
  case (Suc n)
  show ?case
  proof (cases "\<exists>v. get_reg (tr (Suc k)) idx = Inr v \<and> v \<noteq> 0")
    case True
    with Suc.prems show ?thesis by auto
  next
    case False
    then have "wait_reg_nonzero_loop tr idx n (Suc k) = Inr r"
      using Suc.prems(1) by (auto split: sum.splits if_splits)
    from Suc.IH [OF this Suc.prems(2)] show ?thesis by simp
  qed
qed

lemma wait_reg_loop_never:
  "(\<And>j. k < j \<Longrightarrow> j \<le> k + n \<Longrightarrow> get_reg (tr j) idx \<noteq> Inr val) \<Longrightarrow>
     wait_reg_loop tr idx val n k =
       Inr \<lparr>ok = False, edges = k + n, warnings = [timeout_message idx val]\<rparr>"
proof (induction n arbitrary: k)
  case 0
  show ?case by simp
next
  case (Suc n)
  have "get_reg (tr (Suc k)) idx \<noteq> Inr val"
    by (rule Suc.prems) simp_all
  moreover have "wait_reg_loop tr idx val n (Suc k) =
      Inr \<lparr>ok = False, edges = Suc k + n, warnings = [timeout_message idx val]\<rparr>"
    by (rule Suc.IH) (simp_all add: Suc.prems)
  ultimately show ?case
    by (simp split: sum.splits)
qed

lemma wait_reg_nonzero_loop_never:
  "(\<And>j v. k < j \<Longrightarrow> j \<le> k + n \<Longrightarrow> get_reg (tr j) idx = Inr v \<Longrightarrow> v = 0) \<Longrightarrow>
     wait_reg_nonzero_loop tr idx n k = Inr \<lparr>ok = False, edges = k + n, warnings = []\<rparr>"
proof (induction n arbitrary: k)
  case 0
  show ?case by simp
next
  case (Suc n)
  have "get_reg (tr (Suc k)) idx = Inr v \<Longrightarrow> v = 0" for v
    by (rule Suc.prems [of "Suc k"]) simp_all
  moreover have "wait_reg_nonzero_loop tr idx n (Suc k) =
      Inr \<lparr>ok = False, edges = Suc k + n, warnings = []\<rparr>"
  proof (rule Suc.IH)
    fix j v
    assume "Suc k < j" "j \<le> Suc k + n" "get_reg (tr j) idx = Inr v"
    then show "v = 0"
      using Suc.prems [of j v] by simp
  qed
  ultimately show ?case
    by (auto split: sum.splits)
qed

lemma wait_reg_loop_returns: "\<exists>r. wait_reg_loop tr idx val n k = Inr r"
  by (induction n arbitrary: k) (auto split: sum.splits)

lemma wait_reg_nonzero_loop_returns: "\<exists>r. wait_reg_nonzero_loop tr idx n k = Inr r"
  by (induction n arbitrary: k) (auto split: sum.splits)

text \<open>
  C1.  Both waiters return the same outcome whatever the DUT state at the moment of the
  call is: the first observation is made after the first edge.  When a waiter reports
  success it has awaited at least one edge, and the value observed after the last
  awaited edge met the condition.
\<close>

theorem waiter_samples_after_edge:
  "wait_reg (tr(0 := d0)) idx val timeout = wait_reg tr idx val timeout
     \<and> wait_reg_nonzero (tr(0 := d0)) idx timeout = wait_reg_nonzero tr idx timeout
     \<and> (\<forall>r. wait_reg tr idx val timeout = Inr r \<and> ok r \<longrightarrow>
           1 \<le> edges r \<and> get_reg (tr (edges r)) idx = Inr val)
     \<and> (\<forall>r. wait_reg_nonzero tr idx timeout = Inr r \<and> ok r \<longrightarrow>
           1 \<le> edges r \<and> (\<exists>v. get_reg (tr (edges r)) idx = Inr v \<and> v \<noteq> 0))"
proof (intro conjI allI impI)
  show "wait_reg (tr(0 := d0)) idx val timeout = wait_reg tr idx val timeout"
    unfolding wait_reg_def by (rule wait_reg_loop_indep) simp
  show "wait_reg_nonzero (tr(0 := d0)) idx timeout = wait_reg_nonzero tr idx timeout"
    unfolding wait_reg_nonzero_def by (rule wait_reg_nonzero_loop_indep) simp
next
  fix r
  assume "wait_reg tr idx val timeout = Inr r \<and> ok r"
  then have "0 < edges r \<and> edges r \<le> 0 + nat timeout \<and> get_reg (tr (edges r)) idx = Inr val"
    unfolding wait_reg_def by (intro wait_reg_loop_success) simp_all
  then show "1 \<le> edges r" and "get_reg (tr (edges r)) idx = Inr val"
    by simp_all
next
  fix r
  assume "wait_reg_nonzero tr idx timeout = Inr r \<and> ok r"
  then have "0 < edges r \<and> edges r \<le> 0 + nat timeout
      \<and> (\<exists>v. get_reg (tr (edges r)) idx = Inr v \<and> v \<noteq> 0)"
    unfolding wait_reg_nonzero_def by (intro wait_reg_nonzero_loop_success) simp_all
  then show "1 \<le> edges r" and "\<exists>v. get_reg (tr (edges r)) idx = Inr v \<and> v \<noteq> 0"
    by simp_all
qed

theorem waiter_samples_after_edge_witness:
  "get_reg ((\<lambda>k. \<lparr>regs = \<lambda>i. Inr 52\<rparr>) 0) 3 = Inr 52
     \<and> wait_reg (\<lambda>k. \<lparr>regs = \<lambda>i. Inr 52\<rparr>) 3 52 50000
         = Inr \<lparr>ok = True, edges = 1, warnings = []\<rparr>
     \<and> ok \<lparr>ok = True, edges = 1, warnings = []\<rparr>
     \<and> (1::nat) \<le> edges \<lparr>ok = True, edges = 1, warnings = []\<rparr>"
proof -
  let ?tr = "\<lambda>k::nat. \<lparr>regs = \<lambda>i::int. Inr 52 :: py_exn + int\<rparr>"
  let ?r = "\<lparr>ok = True, edges = 1, warnings = []\<rparr>"
  have now: "get_reg (?tr 0) 3 = Inr 52"
    by (simp add: get_reg_def)
  have step: "wait_reg_loop ?tr 3 52 (Suc 49999) 0 = Inr ?r"
    unfolding wait_reg_loop.simps by (simp add: get_reg_def)
  have "nat 50000 = Suc 49999"
    by simp
  with step have run: "wait_reg ?tr 3 52 50000 = Inr ?r"
    by (simp only: wait_reg_def)
  from waiter_samples_after_edge [of ?tr "?tr 0" 3 52 50000]
  have "wait_reg ?tr 3 52 50000 = Inr ?r \<and> ok ?r \<longrightarrow> 1 \<le> edges ?r"
    by blast
  with run have "1 \<le> edges ?r"
    by simp
  with now run show ?thesis
    by simp
qed

text \<open>
  C2.  Neither waiter ever raises.  With a timeout \<open>timeout \<ge> 0\<close>, when no observation
  after the edges \<open>1 .. timeout\<close> meets the condition (an observation that raises does
  not meet it), each waiter returns failure after exactly \<open>timeout\<close> edges;
  \<open>wait_reg\<close> logs its warning.
\<close>

theorem waiter_timeout_exact:
  assumes "0 \<le> timeout"
  shows "(\<exists>r. wait_reg tr idx val timeout = Inr r)
     \<and> (\<exists>r. wait_reg_nonzero tr idx timeout = Inr r)
     \<and> ((\<forall>k. 1 \<le> k \<and> k \<le> nat timeout \<longrightarrow> get_reg (tr k) idx \<noteq> Inr val) \<longrightarrow>
          (\<exists>r. wait_reg tr idx val timeout = Inr r \<and> \<not> ok r \<and> int (edges r) = timeout
             \<and> warnings r = [timeout_message idx val]))
     \<and> ((\<forall>k v. 1 \<le> k \<and> k \<le> nat timeout \<and> get_reg (tr k) idx = Inr v \<longrightarrow> v = 0) \<longrightarrow>
          (\<exists>r. wait_reg_nonzero tr idx timeout = Inr r \<and> \<not> ok r \<and> int (edges r) = timeout))"
proof (intro conjI impI)
  show "\<exists>r. wait_reg tr idx val timeout = Inr r"
    unfolding wait_reg_def by (rule wait_reg_loop_returns)
  show "\<exists>r. wait_reg_nonzero tr idx timeout = Inr r"
    unfolding wait_reg_nonzero_def by (rule wait_reg_nonzero_loop_returns)
next
  assume never: "\<forall>k. 1 \<le> k \<and> k \<le> nat timeout \<longrightarrow> get_reg (tr k) idx \<noteq> Inr val"
  have "wait_reg tr idx val timeout =
      Inr \<lparr>ok = False, edges = 0 + nat timeout, warnings = [timeout_message idx val]\<rparr>"
    unfolding wait_reg_def using never by (intro wait_reg_loop_never) simp_all
  with assms show "\<exists>r. wait_reg tr idx val timeout = Inr r \<and> \<not> ok r
      \<and> int (edges r) = timeout \<and> warnings r = [timeout_message idx val]"
    by simp
next
  assume never: "\<forall>k v. 1 \<le> k \<and> k \<le> nat timeout \<and> get_reg (tr k) idx = Inr v \<longrightarrow> v = 0"
  have "wait_reg_nonzero tr idx timeout =
      Inr \<lparr>ok = False, edges = 0 + nat timeout, warnings = []\<rparr>"
    unfolding wait_reg_nonzero_def
  proof (rule wait_reg_nonzero_loop_never)
    fix j v
    assume "0 < j" "j \<le> 0 + nat timeout" "get_reg (tr j) idx = Inr v"
    with never show "v = 0"
      by (simp add: Suc_le_eq)
  qed
  with assms show "\<exists>r. wait_reg_nonzero tr idx timeout = Inr r \<and> \<not> ok r
      \<and> int (edges r) = timeout"
    by simp
qed


theorem waiter_timeout_exact_witness:
  "(0::int) \<le> 4
     \<and> get_reg ((\<lambda>k. \<lparr>regs = \<lambda>i. if even k then Inl ValueError else Inr 0\<rparr>) (2::nat)) 3
         = Inl ValueError
     \<and> (\<exists>r. wait_reg (\<lambda>k. \<lparr>regs = \<lambda>i. if even k then Inl ValueError else Inr 0\<rparr>) 3 52 4
           = Inr r \<and> \<not> ok r \<and> int (edges r) = 4 \<and> warnings r = [timeout_message 3 52])
     \<and> (\<exists>r. wait_reg_nonzero (\<lambda>k. \<lparr>regs = \<lambda>i. if even k then Inl ValueError else Inr 0\<rparr>)
           3 4 = Inr r \<and> \<not> ok r \<and> int (edges r) = 4)"
proof -
  let ?tr = "\<lambda>k::nat. \<lparr>regs = \<lambda>i::int. if even k then Inl ValueError else Inr 0\<rparr>"
  have t: "(0::int) \<le> 4"
    by simp
  have fails: "get_reg (?tr 2) 3 = Inl ValueError"
    by (simp add: get_reg_def)
  have never_eq: "\<forall>k. 1 \<le> k \<and> k \<le> nat 4 \<longrightarrow> get_reg (?tr k) 3 \<noteq> Inr 52"
    by (simp add: get_reg_def)
  have never_nz: "\<forall>k v. 1 \<le> k \<and> k \<le> nat 4 \<and> get_reg (?tr k) 3 = Inr v \<longrightarrow> v = 0"
    by (auto simp add: get_reg_def split: if_splits)
  from waiter_timeout_exact [OF t, of ?tr 3 52] never_eq never_nz t fails show ?thesis
    by blast
qed


section \<open>Concrete encodings\<close>

text \<open>
  C7. Encoding \<open>ADDI x1, x0, 42\<close>, that is \<open>addi 1 0 42\<close>, which unfolds to
  \<open>i_type 42 0 0 1 0x13\<close>, gives exactly the word \<open>0x02A00093\<close>.
\<close>

theorem addi_x1_x0_42:
  "addi 1 0 42 = i_type 42 0 0 1 0x13 \<and> i_type 42 0 0 1 0x13 = 0x02A00093"
  by (simp add: addi_def i_type_def)

end
